theory Spec2Isabelle
  imports
    Main
    "HOL-Library.Char_ord"
    "HOL-Library.List_Lexorder"
    "HOL-Library.Multiset"
begin

unbundle bit_operations_syntax

section \<open>Python values\<close>

text \<open>
  \<^verbatim>\<open>blockchain.py\<close> keeps every block and every transaction as a Python dict and sends
  them through \<^verbatim>\<open>json.dumps\<close>. The values that occur are the JSON-serialisable ones.
  A dict is an association list in insertion order (the order in which the program, or
  the JSON parser of a peer's reply, stored the keys); its keys are strings and no key
  occurs twice. A float is kept as the text \<^verbatim>\<open>float.__repr__\<close> gives for it (for
  example \<^verbatim>\<open>1700000000.5\<close>, \<^verbatim>\<open>nan\<close>, \<^verbatim>\<open>inf\<close>): the program never
  computes with a float, it only stores the clock reading and serialises it. Strings are
  lists of 8-bit characters, read as the code points 0 to 255.
\<close>

type_synonym float_repr = string

datatype pyobj =
    PNone
  | PBool bool
  | PInt int
  | PFloat float_repr
  | PStr string
  | PList "pyobj list"
  | PDict "(string \<times> pyobj) list"

text \<open>Python's truth value of an object, as \<^verbatim>\<open>or\<close> and \<^verbatim>\<open>if\<close> test it.\<close>

fun truthy :: "pyobj \<Rightarrow> bool" where
  "truthy PNone = False"
| "truthy (PBool b) = b"
| "truthy (PInt i) = (i \<noteq> 0)"
| "truthy (PFloat r) = (r \<noteq> ''0.0'' \<and> r \<noteq> ''-0.0'')"
| "truthy (PStr s) = (s \<noteq> [])"
| "truthy (PList xs) = (xs \<noteq> [])"
| "truthy (PDict kvs) = (kvs \<noteq> [])"

text \<open>The exceptions that the program can meet.\<close>

datatype error = IndexError | KeyError | TypeError | JSONDecodeError | RequestException

subsection \<open>Decimal text of an integer\<close>

text \<open>\<^verbatim>\<open>str(n)\<close>, which is also what an f-string and \<^verbatim>\<open>json.dumps\<close> write for an int.\<close>

definition digit_char :: "nat \<Rightarrow> char" where
  "digit_char d = ''0123456789'' ! d"

fun str_nat :: "nat \<Rightarrow> string" where
  "str_nat n = (if n < 10 then [digit_char n] else str_nat (n div 10) @ [digit_char (n mod 10)])"

declare str_nat.simps [simp del]

definition str_int :: "int \<Rightarrow> string" where
  "str_int i = (if i < 0 then CHR ''-'' # str_nat (nat (- i)) else str_nat (nat i))"

subsection \<open>\<^verbatim>\<open>json.dumps\<close>\<close>

text \<open>
  \<^verbatim>\<open>json.dumps(obj, sort_keys=...)\<close> with the other defaults: \<^verbatim>\<open>ensure_ascii=True\<close>,
  item separator \<^verbatim>\<open>", "\<close> and key separator \<^verbatim>\<open>": "\<close>. A string is written between
  double quotes; backslash, double quote and the control characters with a short escape
  get that escape, every other character outside the range from space to tilde becomes
  \<^verbatim>\<open>\u00XX\<close>.
\<close>

definition hexchar :: "nat \<Rightarrow> char" where
  "hexchar d = ''0123456789abcdef'' ! d"

definition escape_char :: "char \<Rightarrow> string" where
  "escape_char c =
     (let n = (of_char c :: nat) in
      if n = 0x5C then [CHR 0x5C, CHR 0x5C]
      else if n = 0x22 then [CHR 0x5C, CHR 0x22]
      else if n = 0x08 then [CHR 0x5C, CHR ''b'']
      else if n = 0x0C then [CHR 0x5C, CHR ''f'']
      else if n = 0x0A then [CHR 0x5C, CHR ''n'']
      else if n = 0x0D then [CHR 0x5C, CHR ''r'']
      else if n = 0x09 then [CHR 0x5C, CHR ''t'']
      else if 0x20 \<le> n \<and> n \<le> 0x7E then [c]
      else [CHR 0x5C, CHR ''u'', CHR ''0'', CHR ''0'', hexchar (n div 16), hexchar (n mod 16)])"

definition encode_basestring_ascii :: "string \<Rightarrow> string" where
  "encode_basestring_ascii s = [CHR 0x22] @ concat (map escape_char s) @ [CHR 0x22]"

definition floatstr :: "float_repr \<Rightarrow> string" where
  "floatstr r =
     (if r = ''nan'' then ''NaN''
      else if r = ''inf'' then ''Infinity''
      else if r = ''-inf'' then ''-Infinity''
      else r)"

fun join :: "string \<Rightarrow> string list \<Rightarrow> string" where
  "join sep [] = []"
| "join sep [x] = x"
| "join sep (x # y # ys) = x @ sep @ join sep (y # ys)"

text \<open>
  With \<^verbatim>\<open>sort_keys\<close> the encoder writes the items of a dict in the order of
  \<^verbatim>\<open>sorted(dct.items())\<close>; the keys of a dict are distinct, so this is the order of the
  keys, and Python orders strings by code point, as \<open>(\<le>)\<close> on \<^typ>\<open>string\<close> does.
\<close>

primrec json_dumps :: "bool \<Rightarrow> pyobj \<Rightarrow> string" where
  "json_dumps sort_keys PNone = ''null''"
| "json_dumps sort_keys (PBool b) = (if b then ''true'' else ''false'')"
| "json_dumps sort_keys (PInt i) = str_int i"
| "json_dumps sort_keys (PFloat r) = floatstr r"
| "json_dumps sort_keys (PStr s) = encode_basestring_ascii s"
| "json_dumps sort_keys (PList xs) = ''['' @ join '', '' (map (json_dumps sort_keys) xs) @ '']''"
| "json_dumps sort_keys (PDict kvs) =
     ''{'' @ join '', '' (map (\<lambda>(k, v). encode_basestring_ascii k @ '': '' @ v)
        ((if sort_keys then sort_key fst else id)
           (map (map_prod id (json_dumps sort_keys)) kvs))) @ ''}''"

section \<open>SHA-256\<close>

text \<open>
  \<^verbatim>\<open>hashlib.sha256(data).hexdigest()\<close>, after FIPS 180-4. A 32-bit word is a natural
  number below \<open>2 ^ 32\<close>, with the wrap-around of the additions written out; a byte
  is a natural number below 256. The round constants and the initial hash value are
  those of the standard, in decimal.
\<close>

definition K256 :: "nat list" where
  "K256 =
    [1116352408, 1899447441, 3049323471, 3921009573, 961987163, 1508970993,
     2453635748, 2870763221, 3624381080, 310598401, 607225278, 1426881987,
     1925078388, 2162078206, 2614888103, 3248222580, 3835390401, 4022224774,
     264347078, 604807628, 770255983, 1249150122, 1555081692, 1996064986,
     2554220882, 2821834349, 2952996808, 3210313671, 3336571891, 3584528711,
     113926993, 338241895, 666307205, 773529912, 1294757372, 1396182291,
     1695183700, 1986661051, 2177026350, 2456956037, 2730485921, 2820302411,
     3259730800, 3345764771, 3516065817, 3600352804, 4094571909, 275423344,
     430227734, 506948616, 659060556, 883997877, 958139571, 1322822218,
     1537002063, 1747873779, 1955562222, 2024104815, 2227730452, 2361852424,
     2428436474, 2756734187, 3204031479, 3329325298]"

definition H256 :: "nat list" where
  "H256 =
    [1779033703, 3144134277, 1013904242, 2773480762,
     1359893119, 2600822924, 528734635, 1541459225]"

definition add32 :: "nat \<Rightarrow> nat \<Rightarrow> nat" where
  "add32 x y = (x + y) mod 2 ^ 32"

definition rotr :: "nat \<Rightarrow> nat \<Rightarrow> nat" where
  "rotr n x = x div 2 ^ n + (x mod 2 ^ n) * 2 ^ (32 - n)"

definition shr :: "nat \<Rightarrow> nat \<Rightarrow> nat" where
  "shr n x = x div 2 ^ n"

definition Ch :: "nat \<Rightarrow> nat \<Rightarrow> nat \<Rightarrow> nat" where
  "Ch x y z = (x AND y) XOR ((x XOR 4294967295) AND z)"

definition Maj :: "nat \<Rightarrow> nat \<Rightarrow> nat \<Rightarrow> nat" where
  "Maj x y z = (x AND y) XOR (x AND z) XOR (y AND z)"

definition bsig0 :: "nat \<Rightarrow> nat" where
  "bsig0 x = rotr 2 x XOR rotr 13 x XOR rotr 22 x"

definition bsig1 :: "nat \<Rightarrow> nat" where
  "bsig1 x = rotr 6 x XOR rotr 11 x XOR rotr 25 x"

definition ssig0 :: "nat \<Rightarrow> nat" where
  "ssig0 x = rotr 7 x XOR rotr 18 x XOR shr 3 x"

definition ssig1 :: "nat \<Rightarrow> nat" where
  "ssig1 x = rotr 17 x XOR rotr 19 x XOR shr 10 x"

function chunks :: "nat \<Rightarrow> 'a list \<Rightarrow> 'a list list" where
  "chunks n xs = (if n = 0 \<or> xs = [] then [] else take n xs # chunks n (drop n xs))"
  by pat_completeness auto
termination
  by (relation "measure (\<lambda>(n, xs). length xs)") auto

declare chunks.simps [simp del]

definition be64 :: "nat \<Rightarrow> nat list" where
  "be64 n = map (\<lambda>i. (n div 256 ^ i) mod 256) [7, 6, 5, 4, 3, 2, 1, 0]"

text \<open>Padding: the byte 128, zero bytes up to 56 modulo 64, the bit length in 8 bytes.\<close>

definition pad :: "nat list \<Rightarrow> nat list" where
  "pad m = m @ [128] @ replicate ((119 - length m mod 64) mod 64) 0 @ be64 (8 * length m)"

definition be32 :: "nat list \<Rightarrow> nat" where
  "be32 bs = foldl (\<lambda>acc b. 256 * acc + b) 0 bs"

text \<open>One round on the working variables \<open>a\<close> to \<open>h\<close>; \<open>kw\<close> is \<open>K\<^sub>t + W\<^sub>t\<close>.\<close>

fun round :: "nat list \<Rightarrow> nat \<Rightarrow> nat list" where
  "round [a, b, c, d, e, f, g, h] kw =
     (let t1 = add32 (add32 (add32 h (bsig1 e)) (Ch e f g)) kw;
          t2 = add32 (bsig0 a) (Maj a b c)
      in [add32 t1 t2, a, b, c, add32 d t1, e, f, g])"
| "round s kw = s"

text \<open>
  The 64 rounds, one per constant. \<open>w\<close> holds the sixteen latest words of the message
  schedule, \<open>W\<^sub>t\<close> first; each round appends \<open>W\<^sub>t\<^sub>+\<^sub>1\<^sub>6\<close>.
\<close>

fun rounds :: "nat list \<Rightarrow> nat list \<Rightarrow> nat list \<Rightarrow> nat list" where
  "rounds [] w s = s"
| "rounds (k # ks) w s =
     rounds ks
       (tl w @ [add32 (add32 (add32 (ssig1 (w ! 14)) (w ! 9)) (ssig0 (w ! 1))) (w ! 0)])
       (round s (add32 k (w ! 0)))"

definition compress :: "nat list \<Rightarrow> nat list \<Rightarrow> nat list" where
  "compress hs blk = map2 add32 hs (rounds K256 (map be32 (chunks 4 blk)) hs)"

definition sha256 :: "nat list \<Rightarrow> nat list" where
  "sha256 m = foldl compress H256 (chunks 64 (pad m))"

definition hex32 :: "nat \<Rightarrow> string" where
  "hex32 w = map (\<lambda>i. hexchar ((w div 16 ^ i) mod 16)) [7, 6, 5, 4, 3, 2, 1, 0]"

definition hexdigest :: "nat list \<Rightarrow> string" where
  "hexdigest ws = concat (map hex32 ws)"

text \<open>
  \<^verbatim>\<open>str.encode()\<close> is UTF-8: one byte for a code point below 128, two bytes for the
  code points from 128 to 255. (Every string the program encodes is ASCII: decimal digits
  and a sign, or the output of \<^verbatim>\<open>json.dumps\<close> with \<^verbatim>\<open>ensure_ascii\<close>.)
\<close>

definition utf8 :: "char \<Rightarrow> nat list" where
  "utf8 c =
     (let n = (of_char c :: nat) in
      if n < 128 then [n] else [192 + n div 64, 128 + n mod 64])"

definition encode :: "string \<Rightarrow> nat list" where
  "encode s = concat (map utf8 s)"

section \<open>The blockchain of \<^verbatim>\<open>blockchain.py\<close>\<close>

subsection \<open>Blocks\<close>

text \<open>
  A block is the dict that \<^verbatim>\<open>new_block\<close> builds, with the five keys \<^verbatim>\<open>index\<close>,
  \<^verbatim>\<open>timestamp\<close>, \<^verbatim>\<open>transactions\<close>, \<^verbatim>\<open>proof\<close> and \<^verbatim>\<open>previous_hash\<close>. The index and the
  proof are integers and the timestamp is the float \<^verbatim>\<open>time()\<close> returned. The
  transactions are the dicts of the pending list. What is stored under
  \<^verbatim>\<open>previous_hash\<close> is whatever the caller passed: the program passes the integer 1
  (genesis), a dict (\<^verbatim>\<open>mine\<close>), or lets \<^verbatim>\<open>new_block\<close> compute a digest, a string;
  so this field is a Python value. The blocks in the reply of a peer, which runs the
  same program, are taken to be of the same shape, so that no subscript of a block
  raises.
\<close>

record block =
  index :: int
  timestamp :: float_repr
  transactions :: "pyobj list"
  "proof" :: int
  previous_hash :: pyobj

text \<open>The block as the dict it is in memory, keys in the order of the dict display
  in \<^verbatim>\<open>new_block\<close>.\<close>

definition block_dict :: "block \<Rightarrow> pyobj" where
  "block_dict b = PDict
     [(''index'', PInt (index b)),
      (''timestamp'', PFloat (timestamp b)),
      (''transactions'', PList (transactions b)),
      (''proof'', PInt (proof b)),
      (''previous_hash'', previous_hash b)]"

text \<open>
  \<^verbatim>\<open>Blockchain.hash\<close>:
  \<^verbatim>\<open>hashlib.sha256(json.dumps(block, sort_keys=True).encode()).hexdigest()\<close>.
\<close>

definition hash :: "pyobj \<Rightarrow> string" where
  "hash block = (let block_string = encode (json_dumps True block)
                 in hexdigest (sha256 block_string))"

subsection \<open>Proof of work\<close>

text \<open>
  \<^verbatim>\<open>Blockchain.valid_proof\<close>: the SHA-256 digest of the two decimal numbers written
  one after the other starts with four zeros.
\<close>

definition valid_proof :: "int \<Rightarrow> int \<Rightarrow> bool" where
  "valid_proof last_proof proof' =
     (let guess = encode (str_int last_proof @ str_int proof');
          guess_hash = hexdigest (sha256 guess)
      in take 4 guess_hash = ''0000'')"

text \<open>
  \<^verbatim>\<open>Blockchain.proof_of_work\<close>: the loop counts up from 0 until \<^verbatim>\<open>valid_proof\<close> holds.
  Nothing in the program bounds it, so the result is an option: \<open>None\<close> is a loop that
  never ends.
\<close>

partial_function (option) proof_of_work_loop :: "int \<Rightarrow> int \<Rightarrow> int option" where
  "proof_of_work_loop last_proof proof' =
     (if valid_proof last_proof proof' = False
      then proof_of_work_loop last_proof (proof' + 1)
      else Some proof')"

declare proof_of_work_loop.simps [code]

definition proof_of_work :: "int \<Rightarrow> int option" where
  "proof_of_work last_proof = proof_of_work_loop last_proof 0"

subsection \<open>The ledger and its operations\<close>

text \<open>
  The object state. A method takes the state and returns its result, a value or the
  exception raised, together with the state it leaves behind. The clock reading of
  \<^verbatim>\<open>time()\<close> is an argument (\<open>now\<close>).
\<close>

record blockchain =
  chain :: "block list"
  current_transactions :: "pyobj list"
  nodes :: "string set"

text \<open>
  \<^verbatim>\<open>new_block\<close>. The dict display is evaluated before anything is assigned, so the
  \<^verbatim>\<open>IndexError\<close> of \<^verbatim>\<open>self.chain[-1]\<close> on an empty chain leaves the state as it was.
  The right operand of \<^verbatim>\<open>or\<close> is evaluated only when \<^verbatim>\<open>previous_hash\<close> is falsy.
\<close>

definition new_block ::
  "pyobj \<Rightarrow> int \<Rightarrow> float_repr \<Rightarrow> blockchain \<Rightarrow> (error + block) \<times> blockchain" where
  "new_block previous_hash' proof' now self =
     (if \<not> truthy previous_hash' \<and> chain self = [] then (Inl IndexError, self)
      else
        let block = \<lparr>index = int (length (chain self)) + 1,
                     timestamp = now,
                     transactions = current_transactions self,
                     proof = proof',
                     previous_hash =
                       (if truthy previous_hash' then previous_hash'
                        else PStr (hash (block_dict (last (chain self)))))\<rparr>
        in (Inr block, self\<lparr>current_transactions := [], chain := chain self @ [block]\<rparr>))"

text \<open>
  A call of \<^verbatim>\<open>new_block\<close>. The method is \<^verbatim>\<open>def new_block(self, previous_hash, proof)\<close>,
  with no default for \<^verbatim>\<open>previous_hash\<close>: a call that leaves this argument out
  (\<open>None\<close> below) raises \<^verbatim>\<open>TypeError\<close> before the body runs, whereas a call that
  passes a value, be it Python's \<^verbatim>\<open>None\<close>, runs the body.
\<close>

definition call_new_block ::
  "pyobj option \<Rightarrow> int \<Rightarrow> float_repr \<Rightarrow> blockchain \<Rightarrow> (error + block) \<times> blockchain" where
  "call_new_block argument proof' now self =
     (case argument of
        None \<Rightarrow> (Inl TypeError, self)
      | Some previous_hash' \<Rightarrow> new_block previous_hash' proof' now self)"

text \<open>\<^verbatim>\<open>last_block\<close>: \<^verbatim>\<open>self.chain[-1]\<close>.\<close>

definition last_block :: "blockchain \<Rightarrow> error + block" where
  "last_block self = (if chain self = [] then Inl IndexError else Inr (last (chain self)))"

text \<open>\<^verbatim>\<open>new_transaction\<close>: the append comes first, so it stays if \<^verbatim>\<open>last_block\<close> raises.\<close>

definition new_transaction ::
  "pyobj \<Rightarrow> pyobj \<Rightarrow> pyobj \<Rightarrow> blockchain \<Rightarrow> (error + int) \<times> blockchain" where
  "new_transaction sender recipient amount self =
     (let self' = self\<lparr>current_transactions := current_transactions self @
                    [PDict [(''sender'', sender), (''recipient'', recipient), (''amount'', amount)]]\<rparr>
      in case last_block self' of
           Inl e \<Rightarrow> (Inl e, self')
         | Inr b \<Rightarrow> (Inr (index b + 1), self'))"

text \<open>\<^verbatim>\<open>__init__\<close>: empty lists, then the genesis block.\<close>

definition Blockchain :: "float_repr \<Rightarrow> blockchain" where
  "Blockchain now =
     snd (new_block (PInt 1) 100 now \<lparr>chain = [], current_transactions = [], nodes = {}\<rparr>)"

text \<open>
  \<^verbatim>\<open>valid_chain\<close>. The loop runs \<^verbatim>\<open>current_index\<close> from 1 to the end of the list; the
  three \<^verbatim>\<open>print\<close> calls write to standard output only and are left out. \<^verbatim>\<open>chain[0]\<close>
  on an empty list raises \<^verbatim>\<open>IndexError\<close>. A value of another type is never equal
  to a string in Python, which is what \<open>\<noteq>\<close> on \<^typ>\<open>pyobj\<close> says of \<open>PStr\<close>.
\<close>

function valid_chain_loop :: "block list \<Rightarrow> block \<Rightarrow> nat \<Rightarrow> bool" where
  "valid_chain_loop chain' last_block' current_index =
     (if current_index < length chain' then
        (let block = chain' ! current_index in
         if previous_hash block \<noteq> PStr (hash (block_dict last_block')) then False
         else if \<not> valid_proof (proof last_block') (proof block) then False
         else valid_chain_loop chain' block (current_index + 1))
      else True)"
  by pat_completeness auto
termination
  by (relation "measure (\<lambda>(chain', last_block', current_index). length chain' - current_index)")
    auto

declare valid_chain_loop.simps [simp del]

definition valid_chain :: "block list \<Rightarrow> error + bool" where
  "valid_chain chain' =
     (if chain' = [] then Inl IndexError
      else Inr (valid_chain_loop chain' (chain' ! 0) 1))"

text \<open>
  \<^verbatim>\<open>resolve_conflicts\<close> asks every node of \<^verbatim>\<open>self.nodes\<close> for its chain over HTTP.
  What the network does is the input of the model: for each node, in the order in which
  the loop over the set takes them, what \<^verbatim>\<open>requests.get\<close> does, which is to raise (a
  node that cannot be reached, or an address that \<^verbatim>\<open>register_node\<close> stored without a
  host) or to return a response. Of a response the model keeps the status code and what
  the two expressions \<^verbatim>\<open>response.json()['length']\<close> and \<^verbatim>\<open>response.json()['chain']\<close>
  evaluate to: the exception of \<^verbatim>\<open>response.json()\<close> or of the subscript, or the value, an
  integer and a list of blocks. Nothing relates the two values: the program reads the
  length from the reply and never takes the length of the list. No exception is handled
  in \<^verbatim>\<open>resolve_conflicts\<close>, so the first one ends the call. \<^verbatim>\<open>register_node\<close>, which only
  adds to \<^verbatim>\<open>self.nodes\<close>, is not modelled.
\<close>

record response =
  status_code :: int
  json_length :: "error + int"
  json_chain :: "error + block list"

text \<open>
  The loop body. Both subscripts are evaluated before the test, and \<^verbatim>\<open>and\<close> calls
  \<^verbatim>\<open>valid_chain\<close> only when the length is greater.
\<close>

fun resolve_loop ::
  "(error + response) list \<Rightarrow> int \<Rightarrow> block list option \<Rightarrow> error + int \<times> block list option"
  where
  "resolve_loop [] max_length new_chain = Inr (max_length, new_chain)"
| "resolve_loop (got # rest) max_length new_chain =
     (case got of
        Inl e \<Rightarrow> Inl e
      | Inr response \<Rightarrow>
          if status_code response = 200 then
            (case json_length response of
               Inl e \<Rightarrow> Inl e
             | Inr length' \<Rightarrow>
                 (case json_chain response of
                    Inl e \<Rightarrow> Inl e
                  | Inr chain' \<Rightarrow>
                      if length' > max_length then
                        (case valid_chain chain' of
                           Inl e \<Rightarrow> Inl e
                         | Inr ok \<Rightarrow>
                             if ok then resolve_loop rest length' (Some chain')
                             else resolve_loop rest max_length new_chain)
                      else resolve_loop rest max_length new_chain))
          else resolve_loop rest max_length new_chain)"

text \<open>\<^verbatim>\<open>if new_chain:\<close> is false for \<^verbatim>\<open>None\<close> and for an empty list.\<close>

definition resolve_conflicts ::
  "(error + response) list \<Rightarrow> blockchain \<Rightarrow> (error + bool) \<times> blockchain" where
  "resolve_conflicts replies self =
     (case resolve_loop replies (int (length (chain self))) None of
        Inl e \<Rightarrow> (Inl e, self)
      | Inr (max_length, new_chain) \<Rightarrow>
          (case new_chain of
             None \<Rightarrow> (Inr False, self)
           | Some c \<Rightarrow> if c \<noteq> [] then (Inr True, self\<lparr>chain := c\<rparr>) else (Inr False, self)))"

text \<open>
  The request handler \<^verbatim>\<open>mine\<close>, on the module's one \<^verbatim>\<open>Blockchain\<close> object. It returns
  the block it forged (the HTTP response repeats its fields). \<open>None\<close> is a proof-of-work
  loop that does not end. \<^verbatim>\<open>new_block\<close> is called with two positional arguments,
  \<^verbatim>\<open>last_block\<close> and \<^verbatim>\<open>proof\<close>, and its first parameter is \<^verbatim>\<open>previous_hash\<close>.
\<close>

definition mine ::
  "string \<Rightarrow> float_repr \<Rightarrow> blockchain \<Rightarrow> ((error + block) \<times> blockchain) option" where
  "mine node_identifier now self =
     (case last_block self of
        Inl e \<Rightarrow> Some (Inl e, self)
      | Inr last_block' \<Rightarrow>
          (let last_proof = proof last_block' in
           case proof_of_work last_proof of
             None \<Rightarrow> None
           | Some proof' \<Rightarrow>
               (case new_transaction (PStr ''0'') (PStr node_identifier) (PInt 1) self of
                  (Inl e, self') \<Rightarrow> Some (Inl e, self')
                | (Inr i, self') \<Rightarrow>
                    Some (new_block (block_dict last_block') proof' now self'))))"

subsection \<open>Named values used in the statements below\<close>

text \<open>The genesis block that \<^verbatim>\<open>__init__\<close> creates at clock reading \<open>now\<close>.\<close>

definition genesis :: "float_repr \<Rightarrow> block" where
  "genesis now =
     \<lparr>index = 1, timestamp = now, transactions = [], proof = 100, previous_hash = PInt 1\<rparr>"

text \<open>The dict that \<^verbatim>\<open>new_transaction\<close> appends for a sender, a recipient and an amount,
  and the ledger after one such call.\<close>

definition tx_dict :: "pyobj \<times> pyobj \<times> pyobj \<Rightarrow> pyobj" where
  "tx_dict t = (case t of (sender, recipient, amount) \<Rightarrow>
     PDict [(''sender'', sender), (''recipient'', recipient), (''amount'', amount)])"

definition submit :: "blockchain \<Rightarrow> pyobj \<times> pyobj \<times> pyobj \<Rightarrow> blockchain" where
  "submit self t = (case t of (sender, recipient, amount) \<Rightarrow>
     snd (new_transaction sender recipient amount self))"

text \<open>
  Concrete inputs. \<open>g1\<close> is a first block with proof 93711; the least proof of work
  after 93711 is 1. \<open>ledger1\<close> is a new ledger after
  \<^verbatim>\<open>new_block(previous_hash=None, proof=93711)\<close>.
\<close>

definition g1 :: block where
  "g1 = \<lparr>index = 1, timestamp = ''1.5'', transactions = [], proof = 93711,
          previous_hash = PInt 1\<rparr>"

definition ledger1 :: blockchain where
  "ledger1 = snd (new_block PNone 93711 ''2.5'' (Blockchain ''1.5''))"

subsection \<open>Predicates of the statements below\<close>

text \<open>
  The ledgers that the program can reach: a new ledger, and what the four operations
  make of one, whatever their arguments and whatever the peers reply.
\<close>

inductive ledger :: "blockchain \<Rightarrow> bool" where
  new: "ledger (Blockchain now)"
| submitted: "ledger self \<Longrightarrow> ledger (snd (new_transaction sender recipient amount self))"
| sealed: "ledger self \<Longrightarrow> ledger (snd (new_block ph p now self))"
| mined: "ledger self \<Longrightarrow> mine node_identifier now self = Some (r, self') \<Longrightarrow> ledger self'"
| resolved: "ledger self \<Longrightarrow> ledger (snd (resolve_conflicts replies self))"

text \<open>
  Two Python values with the same content: equal, or lists of values with the same
  content, or dicts with the same keys whose values have the same content, in whatever
  order the keys were stored.
\<close>

inductive same_content :: "pyobj \<Rightarrow> pyobj \<Rightarrow> bool" where
  same: "same_content x x"
| lists: "list_all2 same_content xs ys \<Longrightarrow> same_content (PList xs) (PList ys)"
| dicts: "distinct (map fst kvs) \<Longrightarrow> distinct (map fst kvs') \<Longrightarrow>
    fst ` set kvs = fst ` set kvs' \<Longrightarrow>
    (\<forall>k v v'. (k, v) \<in> set kvs \<and> (k, v') \<in> set kvs' \<longrightarrow> same_content v v') \<Longrightarrow>
    same_content (PDict kvs) (PDict kvs')"

subsection \<open>More concrete inputs\<close>

text \<open>
  \<open>g2\<close> follows \<open>g1\<close> with the digest of \<open>g1\<close> and the proof 1, and
  \<open>g2_renumbered\<close> is \<open>g2\<close> saying that its index is 7. Four replies: one with the
  two blocks \<open>g1\<close> and \<open>g2\<close>, one that reports a length of 3 for a chain of one
  block, one whose second block is \<open>g2_renumbered\<close>, and one with a greater length
  and no block at all.
\<close>

definition g2 :: block where
  "g2 = \<lparr>index = 2, timestamp = ''2.5'', transactions = [], proof = 1,
          previous_hash = PStr (hash (block_dict g1))\<rparr>"

definition g2_renumbered :: block where
  "g2_renumbered = \<lparr>index = 7, timestamp = ''2.5'', transactions = [], proof = 1,
          previous_hash = PStr (hash (block_dict g1))\<rparr>"

definition peer_good :: response where
  "peer_good = \<lparr>status_code = 200, json_length = Inr 2, json_chain = Inr [g1, g2]\<rparr>"

definition peer_overstating :: response where
  "peer_overstating = \<lparr>status_code = 200, json_length = Inr 3, json_chain = Inr [g1]\<rparr>"

definition peer_renumbered :: response where
  "peer_renumbered =
     \<lparr>status_code = 200, json_length = Inr 2, json_chain = Inr [g1, g2_renumbered]\<rparr>"

definition peer_empty :: response where
  "peer_empty = \<lparr>status_code = 200, json_length = Inr 3, json_chain = Inr []\<rparr>"

text \<open>A new ledger after it adopted the chain of \<open>peer_renumbered\<close>, with the
  transaction that is then submitted to it.\<close>

definition foreign_ledger :: blockchain where
  "foreign_ledger = snd (resolve_conflicts [Inr peer_renumbered] (Blockchain ''1.5''))"

definition foreign_pending :: blockchain where
  "foreign_pending =
     snd (new_transaction (PStr ''a'') (PStr ''b'') (PInt 1) foreign_ledger)"

text \<open>
  A block with one transaction as \<^verbatim>\<open>new_block\<close> and \<^verbatim>\<open>new_transaction\<close> store it, and
  the same block as a JSON parser that delivers the keys in sorted order stores it.
\<close>

definition tx_ab :: pyobj where
  "tx_ab = PDict [(''sender'', PStr ''a''), (''recipient'', PStr ''b''), (''amount'', PInt 1)]"

definition tx_ab_sorted :: pyobj where
  "tx_ab_sorted = PDict [(''amount'', PInt 1), (''recipient'', PStr ''b''), (''sender'', PStr ''a'')]"

definition block_ab :: block where
  "block_ab = \<lparr>index = 2, timestamp = ''2.5'', transactions = [tx_ab], proof = 1,
      previous_hash = PStr ''00''\<rparr>"

definition block_ab_parsed :: pyobj where
  "block_ab_parsed = PDict
     [(''index'', PInt 2),
      (''previous_hash'', PStr ''00''),
      (''proof'', PInt 1),
      (''timestamp'', PFloat ''2.5''),
      (''transactions'', PList [tx_ab_sorted])]"

section \<open>Evaluation of the digest\<close>

lemma replicate_numeral: "replicate (numeral k) x = x # replicate (pred_numeral k) x"
  by (simp add: numeral_eq_Suc)

lemmas sha256_eval =
  hexdigest_def hex32_def hexchar_def encode_def utf8_def sha256_def compress_def
  pad_def be64_def be32_def chunks.simps K256_def H256_def replicate_numeral
  ssig0_def ssig1_def bsig0_def bsig1_def Ch_def Maj_def rotr_def shr_def add32_def

lemma str_int_93711: "str_int 93711 = ''93711''"
  by (simp add: str_int_def str_nat.simps digit_char_def)

lemma str_int_0: "str_int 0 = ''0''" "str_int 1 = ''1''"
  by (simp_all add: str_int_def str_nat.simps digit_char_def)

text \<open>
  Three digests, computed by rewriting: the test vector \<^verbatim>\<open>abc\<close> of the standard, and
  the two guesses \<^verbatim>\<open>f'{93711}{1}'\<close> and \<^verbatim>\<open>f'{93711}{0}'\<close>.
\<close>

lemma sha256_abc:
  "hexdigest (sha256 (encode ''abc'')) =
     ''ba7816bf8f01cfea414140de5dae2223b00361a396177a9cb410ff61f20015ad''"
  by (simp add: sha256_eval)

lemma sha256_937111:
  "hexdigest (sha256 (encode ''937111'')) =
     ''0000e6b89b0f08f0f7faf26f0ce60185e5043f11ed84c8881033ea0580011111''"
  by (simp add: sha256_eval)

lemma valid_proof_93711_1: "valid_proof 93711 1"
  by (simp add: valid_proof_def str_int_93711 str_int_0 sha256_937111)

lemma sha256_937110:
  "hexdigest (sha256 (encode ''937110'')) =
     ''c4335ad404f7f2548e803bd4428269cbecd358632f6140521b19271d60c90638''"
  by (simp add: sha256_eval)

lemma not_valid_proof_93711_0: "\<not> valid_proof 93711 0"
  by (simp add: valid_proof_def str_int_93711 str_int_0 sha256_937110)

text \<open>The text that \<^verbatim>\<open>Blockchain.hash\<close> digests for a genesis block, and the text
  without \<^verbatim>\<open>sort_keys\<close>, in the order of the dict.\<close>

lemma json_dumps_genesis:
  \<open>json_dumps True (block_dict (genesis ''1700000000.5'')) =
     ''{"index": 1, "previous_hash": 1, "proof": 100, "timestamp": 1700000000.5, "transactions": []}''\<close>
  by (simp add: block_dict_def genesis_def encode_basestring_ascii_def escape_char_def
      str_int_def str_nat.simps digit_char_def floatstr_def)

lemma json_dumps_genesis_unsorted:
  \<open>json_dumps False (block_dict (genesis ''1700000000.5'')) =
     ''{"index": 1, "timestamp": 1700000000.5, "transactions": [], "proof": 100, "previous_hash": 1}''\<close>
  by (simp add: block_dict_def genesis_def encode_basestring_ascii_def escape_char_def
      str_int_def str_nat.simps digit_char_def floatstr_def)

lemma pow_loop_sound:
  assumes ret: "proof_of_work_loop a k = Some p"
  shows "k \<le> p \<and> valid_proof a p \<and> (\<forall>q. k \<le> q \<and> q < p \<longrightarrow> \<not> valid_proof a q)"
proof (rule proof_of_work_loop.raw_induct
    [where P = "\<lambda>a k p. k \<le> p \<and> valid_proof a p \<and> (\<forall>q. k \<le> q \<and> q < p \<longrightarrow> \<not> valid_proof a q)",
      OF _ ret])
  fix f a k p
  assume IH: "\<And>a k p. f a k = Some p \<Longrightarrow>
      k \<le> p \<and> valid_proof a p \<and> (\<forall>q. k \<le> q \<and> q < p \<longrightarrow> \<not> valid_proof a q)"
    and eq: "(if valid_proof a k = False then f a (k + 1) else Some k) = Some p"
  show "k \<le> p \<and> valid_proof a p \<and> (\<forall>q. k \<le> q \<and> q < p \<longrightarrow> \<not> valid_proof a q)"
  proof (cases "valid_proof a k")
    case True
    with eq show ?thesis by auto
  next
    case False
    with eq have "f a (k + 1) = Some p" by simp
    then have *: "k + 1 \<le> p \<and> valid_proof a p \<and>
        (\<forall>q. k + 1 \<le> q \<and> q < p \<longrightarrow> \<not> valid_proof a q)"
      by (rule IH)
    have "\<not> valid_proof a q" if "k \<le> q" "q < p" for q
    proof (cases "q = k")
      case True
      with False show ?thesis by simp
    next
      case False
      with that * show ?thesis by simp
    qed
    with * show ?thesis by simp
  qed
qed

lemma pow_loop_complete:
  assumes "valid_proof a p" and "k \<le> p" and "\<forall>q. k \<le> q \<and> q < p \<longrightarrow> \<not> valid_proof a q"
  shows "proof_of_work_loop a k = Some p"
  using assms
proof (induction "nat (p - k)" arbitrary: k)
  case 0
  then have "k = p" by simp
  with \<open>valid_proof a p\<close> show ?case
    by (simp add: proof_of_work_loop.simps [of a p])
next
  case (Suc n)
  then have "k < p" by simp
  with Suc.prems have nk: "\<not> valid_proof a k" by simp
  have "proof_of_work_loop a (k + 1) = Some p"
  proof (rule Suc.hyps(1))
    show "n = nat (p - (k + 1))" using Suc.hyps(2) by simp
    show "valid_proof a p" by fact
    show "k + 1 \<le> p" using \<open>k < p\<close> by simp
    show "\<forall>q. k + 1 \<le> q \<and> q < p \<longrightarrow> \<not> valid_proof a q" using Suc.prems(3) by simp
  qed
  with nk show ?case
    by (simp add: proof_of_work_loop.simps [of a k])
qed

text \<open>
  C4. If \<^verbatim>\<open>proof_of_work(a)\<close> returns, it returns the least \<open>p \<ge> 0\<close> with
  \<^verbatim>\<open>valid_proof(a, p)\<close>, so \<^verbatim>\<open>valid_proof(a, proof_of_work(a))\<close> holds; and it does return
  whenever some \<open>p \<ge> 0\<close> is valid.
\<close>

theorem proof_of_work_least:
  "proof_of_work a = Some p \<longleftrightarrow>
     0 \<le> p \<and> valid_proof a p \<and> (\<forall>q. 0 \<le> q \<and> q < p \<longrightarrow> \<not> valid_proof a q)"
  unfolding proof_of_work_def
  using pow_loop_sound [of a 0 p] pow_loop_complete [of a p 0] by blast

theorem proof_of_work_least_witness:
  "proof_of_work 93711 = Some 1 \<and> valid_proof 93711 1 \<and> \<not> valid_proof 93711 0"
proof -
  have "\<forall>q::int. 0 \<le> q \<and> q < 1 \<longrightarrow> \<not> valid_proof 93711 q"
  proof (intro allI impI)
    fix q :: int
    assume "0 \<le> q \<and> q < 1"
    then have "q = 0" by simp
    with not_valid_proof_93711_0 show "\<not> valid_proof 93711 q" by simp
  qed
  with valid_proof_93711_1 have "proof_of_work 93711 = Some 1"
    using proof_of_work_least [of 93711 1] by simp
  with valid_proof_93711_1 not_valid_proof_93711_0 show ?thesis by simp
qed

section \<open>Chain validation\<close>

lemma valid_chain_loop_iff:
  "0 < i \<Longrightarrow> lb = c ! (i - 1) \<Longrightarrow>
   valid_chain_loop c lb i \<longleftrightarrow>
     (\<forall>j. i \<le> j \<and> j < length c \<longrightarrow>
        previous_hash (c ! j) = PStr (hash (block_dict (c ! (j - 1)))) \<and>
        valid_proof (proof (c ! (j - 1))) (proof (c ! j)))"
proof (induction c lb i rule: valid_chain_loop.induct)
  case (1 c lb i)
  let ?ok = "\<lambda>j. previous_hash (c ! j) = PStr (hash (block_dict (c ! (j - 1)))) \<and>
        valid_proof (proof (c ! (j - 1))) (proof (c ! j))"
  show ?case
  proof (cases "i < length c")
    case False
    then show ?thesis by (auto simp add: valid_chain_loop.simps [of c lb i])
  next
    case True
    show ?thesis
    proof (cases "?ok i")
      case False
      with True "1.prems" have "\<not> valid_chain_loop c lb i"
        by (subst valid_chain_loop.simps) (auto simp add: Let_def)
      moreover from False True have "\<not> (\<forall>j. i \<le> j \<and> j < length c \<longrightarrow> ?ok j)"
        by blast
      ultimately show ?thesis by blast
    next
      case ok: True
      with True "1.prems" have step: "valid_chain_loop c lb i = valid_chain_loop c (c ! i) (i + 1)"
        by (subst valid_chain_loop.simps) (simp add: Let_def)
      from ok True "1.prems"
      have "valid_chain_loop c (c ! i) (i + 1) \<longleftrightarrow> (\<forall>j. i + 1 \<le> j \<and> j < length c \<longrightarrow> ?ok j)"
        by (intro "1.IH") simp_all
      moreover have "(\<forall>j. i \<le> j \<and> j < length c \<longrightarrow> ?ok j) \<longleftrightarrow>
          (\<forall>j. i + 1 \<le> j \<and> j < length c \<longrightarrow> ?ok j)"
      proof
        assume "\<forall>j. i \<le> j \<and> j < length c \<longrightarrow> ?ok j"
        then show "\<forall>j. i + 1 \<le> j \<and> j < length c \<longrightarrow> ?ok j" by simp
      next
        assume r: "\<forall>j. i + 1 \<le> j \<and> j < length c \<longrightarrow> ?ok j"
        show "\<forall>j. i \<le> j \<and> j < length c \<longrightarrow> ?ok j"
        proof (intro allI impI)
          fix j assume j: "i \<le> j \<and> j < length c"
          show "?ok j"
          proof (cases "j = i")
            case True
            with ok show ?thesis by simp
          next
            case False
            with j have "i + 1 \<le> j \<and> j < length c" by simp
            with r show ?thesis by blast
          qed
        qed
      qed
      ultimately show ?thesis using step by simp
    qed
  qed
qed

lemma valid_chain_iff:
  "c \<noteq> [] \<Longrightarrow>
   valid_chain c = Inr (\<forall>j. 0 < j \<and> j < length c \<longrightarrow>
        previous_hash (c ! j) = PStr (hash (block_dict (c ! (j - 1)))) \<and>
        valid_proof (proof (c ! (j - 1))) (proof (c ! j)))"
  using valid_chain_loop_iff [of 1 "c ! 0" c]
  by (simp add: valid_chain_def Suc_le_eq)

lemma valid_chain_True_nonempty: "valid_chain c = Inr True \<Longrightarrow> c \<noteq> []"
  by (auto simp add: valid_chain_def)

lemma valid_chain_single: "valid_chain [b] = Inr True"
  by (simp add: valid_chain_iff)

lemma valid_chain_snoc:
  assumes "c \<noteq> []"
  shows "valid_chain (c @ [b]) =
     Inr (valid_chain c = Inr True \<and>
          previous_hash b = PStr (hash (block_dict (last c))) \<and>
          valid_proof (proof (last c)) (proof b))"
proof -
  let ?ok = "\<lambda>c j. previous_hash (c ! j) = PStr (hash (block_dict (c ! (j - 1)))) \<and>
        valid_proof (proof (c ! (j - 1))) (proof (c ! j))"
  have "(\<forall>j. 0 < j \<and> j < length (c @ [b]) \<longrightarrow> ?ok (c @ [b]) j) \<longleftrightarrow>
        (\<forall>j. 0 < j \<and> j < length c \<longrightarrow> ?ok c j) \<and>
        previous_hash b = PStr (hash (block_dict (last c))) \<and>
        valid_proof (proof (last c)) (proof b)" (is "?L \<longleftrightarrow> ?R1 \<and> ?R2")
  proof
    assume L: ?L
    have "?ok c j" if "0 < j \<and> j < length c" for j
    proof -
      from that have "j - 1 < length c" "j < length (c @ [b])" by auto
      with L [rule_format, of j] that show ?thesis by (simp add: nth_append)
    qed
    moreover have ?R2
      using L [rule_format, of "length c"] assms by (simp add: nth_append last_conv_nth)
    ultimately show "?R1 \<and> ?R2" by blast
  next
    assume R: "?R1 \<and> ?R2"
    show ?L
    proof (intro allI impI)
      fix j assume j: "0 < j \<and> j < length (c @ [b])"
      show "?ok (c @ [b]) j"
      proof (cases "j < length c")
        case True
        then have "j - 1 < length c" by arith
        with True R j show ?thesis by (simp add: nth_append)
      next
        case False
        with j have "j = length c" by simp
        with R assms show ?thesis by (simp add: nth_append last_conv_nth)
      qed
    qed
  qed
  with assms show ?thesis by (simp add: valid_chain_iff)
qed

lemma Blockchain_eq:
  "Blockchain now = \<lparr>chain = [genesis now], current_transactions = [], nodes = {}\<rparr>"
  by (simp add: Blockchain_def new_block_def genesis_def Let_def)

text \<open>
  C6. For a non-empty chain, \<^verbatim>\<open>valid_chain\<close> returns true exactly when every block after
  the first stores the digest of the block before it and carries a valid proof for that
  block's proof. A violated link makes the result false whatever follows it. A chain of
  one block is valid, so the chain of a new ledger is.
\<close>

theorem valid_chain_checks_every_link:
  "(c \<noteq> [] \<longrightarrow>
      valid_chain c = Inr (\<forall>j. 0 < j \<and> j < length c \<longrightarrow>
        previous_hash (c ! j) = PStr (hash (block_dict (c ! (j - 1)))) \<and>
        valid_proof (proof (c ! (j - 1))) (proof (c ! j)))) \<and>
   (0 < i \<and> i < length c \<and>
      \<not> (previous_hash (c ! i) = PStr (hash (block_dict (c ! (i - 1)))) \<and>
         valid_proof (proof (c ! (i - 1))) (proof (c ! i))) \<longrightarrow>
      valid_chain (take (Suc i) c @ rest) = Inr False) \<and>
   valid_chain [b] = Inr True \<and>
   valid_chain (chain (Blockchain now)) = Inr True"
proof (intro conjI impI)
  assume "c \<noteq> []"
  then show "valid_chain c = Inr (\<forall>j. 0 < j \<and> j < length c \<longrightarrow>
        previous_hash (c ! j) = PStr (hash (block_dict (c ! (j - 1)))) \<and>
        valid_proof (proof (c ! (j - 1))) (proof (c ! j)))"
    by (rule valid_chain_iff)
next
  let ?d = "take (Suc i) c @ rest"
  assume a: "0 < i \<and> i < length c \<and>
      \<not> (previous_hash (c ! i) = PStr (hash (block_dict (c ! (i - 1)))) \<and>
         valid_proof (proof (c ! (i - 1))) (proof (c ! i)))"
  then have i: "i < length ?d" "0 < i" "i - 1 < Suc i" "i < Suc i" "Suc i \<le> length c" by auto
  then have "?d ! i = c ! i" "?d ! (i - 1) = c ! (i - 1)"
    by (simp_all add: nth_append)
  with a have "\<not> (previous_hash (?d ! i) = PStr (hash (block_dict (?d ! (i - 1)))) \<and>
         valid_proof (proof (?d ! (i - 1))) (proof (?d ! i)))"
    by simp
  with i have "\<not> (\<forall>j. 0 < j \<and> j < length ?d \<longrightarrow>
        previous_hash (?d ! j) = PStr (hash (block_dict (?d ! (j - 1)))) \<and>
        valid_proof (proof (?d ! (j - 1))) (proof (?d ! j)))"
    by blast
  moreover from i have "?d \<noteq> []" by auto
  ultimately show "valid_chain ?d = Inr False"
    by (simp add: valid_chain_iff)
next
  show "valid_chain [b] = Inr True" by (rule valid_chain_single)
next
  show "valid_chain (chain (Blockchain now)) = Inr True"
    by (simp add: Blockchain_eq valid_chain_single)
qed

theorem valid_chain_checks_every_link_witness:
  "valid_chain [g1, \<lparr>index = 2, timestamp = ''2.5'', transactions = [], proof = 1,
        previous_hash = PStr (hash (block_dict g1))\<rparr>] = Inr True \<and>
   valid_chain [g1, \<lparr>index = 2, timestamp = ''2.5'', transactions = [], proof = 0,
        previous_hash = PStr (hash (block_dict g1))\<rparr>] = Inr False \<and>
   valid_chain [g1, \<lparr>index = 2, timestamp = ''2.5'', transactions = [], proof = 1,
        previous_hash = block_dict g1\<rparr>, g1] = Inr False"
proof -
  let ?b = "\<lparr>index = 2, timestamp = ''2.5'', transactions = [], proof = 1,
        previous_hash = PStr (hash (block_dict g1))\<rparr>"
  let ?bad = "\<lparr>index = 2, timestamp = ''2.5'', transactions = [], proof = 0,
        previous_hash = PStr (hash (block_dict g1))\<rparr>"
  let ?dic = "\<lparr>index = 2, timestamp = ''2.5'', transactions = [], proof = 1,
        previous_hash = block_dict g1\<rparr>"
  have two: "(\<forall>j::nat. 0 < j \<and> j < 2 \<longrightarrow> P j) \<longleftrightarrow> P 1" for P
    by (auto simp add: less_Suc_eq numeral_2_eq_2)
  have len: "length [x, y] = 2" for x y :: block
    by simp
  note every = valid_chain_checks_every_link [THEN conjunct1, THEN mp]
  note first = valid_chain_checks_every_link [THEN conjunct2, THEN conjunct1, THEN mp]
  have "valid_chain [g1, ?b] = Inr True"
    using every [of "[g1, ?b]"] valid_proof_93711_1
    unfolding len two by (simp add: g1_def)
  moreover have "valid_chain [g1, ?bad] = Inr False"
    using every [of "[g1, ?bad]"] not_valid_proof_93711_0
    unfolding len two by (simp add: g1_def)
  moreover have "valid_chain [g1, ?dic, g1] = Inr False"
    using first [of 1 "[g1, ?dic]" "[g1]"]
    by (simp add: block_dict_def)
  ultimately show ?thesis by simp
qed

section \<open>Sealing a block\<close>

lemma new_block_eq:
  "chain self \<noteq> [] \<or> truthy ph \<Longrightarrow>
   new_block ph p now self =
     (Inr \<lparr>index = int (length (chain self)) + 1, timestamp = now,
           transactions = current_transactions self, proof = p,
           previous_hash = (if truthy ph then ph
                            else PStr (hash (block_dict (last (chain self)))))\<rparr>,
      self\<lparr>current_transactions := [],
           chain := chain self @
             [\<lparr>index = int (length (chain self)) + 1, timestamp = now,
               transactions = current_transactions self, proof = p,
               previous_hash = (if truthy ph then ph
                                else PStr (hash (block_dict (last (chain self)))))\<rparr>]\<rparr>)"
  by (auto simp add: new_block_def Let_def)

lemma new_transaction_eq:
  "chain self \<noteq> [] \<Longrightarrow>
   new_transaction s r a self =
     (Inr (index (last (chain self)) + 1),
      self\<lparr>current_transactions := current_transactions self @ [tx_dict (s, r, a)]\<rparr>)"
  by (simp add: new_transaction_def last_block_def tx_dict_def Let_def)

lemma submit_all:
  "chain self \<noteq> [] \<Longrightarrow>
   foldl submit self txs =
     self\<lparr>current_transactions := current_transactions self @ map tx_dict txs\<rparr>"
proof (induction txs arbitrary: self)
  case Nil
  then show ?case by simp
next
  case (Cons t txs)
  obtain s r a where t: "t = (s, r, a)" by (cases t) auto
  have "submit self t = self\<lparr>current_transactions := current_transactions self @ [tx_dict t]\<rparr>"
    using Cons.prems by (simp add: submit_def t new_transaction_eq)
  moreover have "chain (submit self t) \<noteq> []"
    using Cons.prems calculation by simp
  ultimately show ?case
    using Cons.IH [of "submit self t"] by simp
qed

lemma ledger1_eq:
  "ledger1 = \<lparr>chain = [genesis ''1.5'',
       \<lparr>index = 2, timestamp = ''2.5'', transactions = [], proof = 93711,
         previous_hash = PStr (hash (block_dict (genesis ''1.5'')))\<rparr>],
     current_transactions = [], nodes = {}\<rparr>"
  by (simp add: ledger1_def Blockchain_eq new_block_eq)

text \<open>
  C5. On a ledger with a pending list, \<^verbatim>\<open>new_block\<close> with any proof and any
  \<^verbatim>\<open>previous_hash\<close> empties the pending list, appends exactly one block, and that block's
  transactions are the pending ones in the order of their submission. With
  \<^verbatim>\<open>previous_hash=None\<close> passed the block stores the digest of the last block; with the
  argument left out, which the docstring allows (\<^verbatim>\<open>(Optional)\<close>), the call raises
  \<^verbatim>\<open>TypeError\<close> and the ledger stays as it was.
\<close>

theorem new_block_seals_pending:
  assumes "chain self \<noteq> [] \<or> truthy ph"
  shows "(\<exists>b. new_block ph p now self =
            (Inr b, self\<lparr>current_transactions := [], chain := chain self @ [b]\<rparr>) \<and>
          transactions b = current_transactions self \<and>
          (ph = PNone \<longrightarrow> previous_hash b = PStr (hash (block_dict (last (chain self)))))) \<and>
         (chain self \<noteq> [] \<longrightarrow>
            current_transactions (foldl submit self txs) =
              current_transactions self @ map tx_dict txs \<and>
            chain (foldl submit self txs) = chain self) \<and>
         call_new_block (Some ph) p now self = new_block ph p now self \<and>
         call_new_block None p now self = (Inl TypeError, self)"
  using assms by (auto simp add: new_block_eq submit_all call_new_block_def)

theorem new_block_seals_pending_witness:
  "(\<exists>b. call_new_block (Some PNone) 5 ''3.5''
          (foldl submit ledger1 [(PStr ''a'', PStr ''b'', PInt 1), (PStr ''b'', PStr ''c'', PInt 2)]) =
        (Inr b, ledger1\<lparr>chain := chain ledger1 @ [b]\<rparr>) \<and>
      transactions b =
        [PDict [(''sender'', PStr ''a''), (''recipient'', PStr ''b''), (''amount'', PInt 1)],
         PDict [(''sender'', PStr ''b''), (''recipient'', PStr ''c''), (''amount'', PInt 2)]] \<and>
      previous_hash b = PStr (hash (block_dict (last (chain ledger1))))) \<and>
   call_new_block None 5 ''2.5'' (Blockchain ''1.5'') = (Inl TypeError, Blockchain ''1.5'')"
proof -
  let ?txs = "[(PStr ''a'', PStr ''b'', PInt 1), (PStr ''b'', PStr ''c'', PInt 2)]"
  have l: "current_transactions ledger1 = []" "chain ledger1 \<noteq> []"
    by (simp_all add: ledger1_eq)
  have s: "foldl submit ledger1 ?txs =
      ledger1\<lparr>current_transactions := map tx_dict ?txs\<rparr>"
    using submit_all [OF l(2), of ?txs] l(1) by simp
  then have ne: "chain (foldl submit ledger1 ?txs) \<noteq> [] \<or> truthy PNone"
    using l by simp
  have ne': "chain (Blockchain ''1.5'') \<noteq> [] \<or> truthy PNone"
    by (simp add: Blockchain_eq)
  have 1: "\<exists>b. call_new_block (Some PNone) 5 ''3.5'' (foldl submit ledger1 ?txs) =
        (Inr b, ledger1\<lparr>chain := chain ledger1 @ [b]\<rparr>) \<and>
      transactions b = map tx_dict ?txs \<and>
      previous_hash b = PStr (hash (block_dict (last (chain ledger1))))"
    using new_block_seals_pending [OF ne, of 5 "''3.5''" "[]"] l
    unfolding s by auto
  have 2: "call_new_block None 5 ''2.5'' (Blockchain ''1.5'') = (Inl TypeError, Blockchain ''1.5'')"
    using new_block_seals_pending [OF ne', of 5 "''2.5''" "[]"] by blast
  from 1 2 show ?thesis by (simp add: tx_dict_def)
qed

text \<open>
  C9. \<^verbatim>\<open>new_block\<close> never checks the proof it is given: for every integer it builds the
  block, appends it and raises nothing, also when the proof is not valid for the last
  block's proof (and the chain then fails \<^verbatim>\<open>valid_chain\<close>).
\<close>

theorem new_block_accepts_any_proof:
  assumes "chain self \<noteq> []"
  shows "\<exists>b. new_block ph p now self =
            (Inr b, self\<lparr>current_transactions := [], chain := chain self @ [b]\<rparr>) \<and>
          proof b = p \<and>
          (\<not> valid_proof (proof (last (chain self))) p \<longrightarrow>
             valid_chain (chain self @ [b]) = Inr False)"
  using assms by (simp add: new_block_eq valid_chain_snoc)

theorem new_block_accepts_any_proof_witness:
  "\<not> valid_proof (proof (last (chain ledger1))) 0 \<and>
   (\<exists>b. new_block PNone 0 ''3.5'' ledger1 = (Inr b, ledger1\<lparr>chain := chain ledger1 @ [b]\<rparr>) \<and>
        proof b = 0 \<and> valid_chain (chain ledger1 @ [b]) = Inr False)"
proof -
  have ne: "chain ledger1 \<noteq> []" and nv: "\<not> valid_proof (proof (last (chain ledger1))) 0"
    and e: "current_transactions ledger1 = []"
    using not_valid_proof_93711_0 by (simp_all add: ledger1_eq)
  from new_block_accepts_any_proof [OF ne, of PNone 0 "''3.5''"] nv e show ?thesis
    by auto
qed

text \<open>
  C10. \<^verbatim>\<open>valid_chain\<close> on an empty list raises \<^verbatim>\<open>IndexError\<close> instead of returning a
  boolean, and \<^verbatim>\<open>resolve_conflicts\<close> reaches this when a node reports a length greater
  than the local one together with an empty chain.
\<close>

theorem valid_chain_empty_raises:
  "valid_chain [] = Inl IndexError \<and>
   (int (length (chain self)) < n \<longrightarrow>
      resolve_conflicts
        [Inr \<lparr>status_code = 200, json_length = Inr n, json_chain = Inr []\<rparr>] self =
        (Inl IndexError, self))"
  by (simp add: valid_chain_def resolve_conflicts_def)

theorem valid_chain_empty_raises_witness:
  "int (length (chain (Blockchain ''1.5''))) < 2 \<and>
   resolve_conflicts
     [Inr \<lparr>status_code = 200, json_length = Inr 2, json_chain = Inr []\<rparr>] (Blockchain ''1.5'') =
     (Inl IndexError, Blockchain ''1.5'')"
  using valid_chain_empty_raises [of "Blockchain ''1.5''" 2]
  by (simp add: Blockchain_eq)

section \<open>The digest does not depend on the order of the keys\<close>

lemma length_round: "length s = 8 \<Longrightarrow> length (round s kw) = 8"
proof -
  assume "length s = 8"
  then obtain a b c d e f g h where "s = [a, b, c, d, e, f, g, h]"
    by (auto simp add: eval_nat_numeral length_Suc_conv)
  then show ?thesis by (simp add: Let_def)
qed

lemma length_rounds: "length s = 8 \<Longrightarrow> length (rounds ks w s) = 8"
  by (induction ks arbitrary: w s) (simp_all add: length_round)

lemma length_compress: "length hs = 8 \<Longrightarrow> length (compress hs blk) = 8"
  by (simp add: compress_def length_rounds)

lemma length_foldl_compress: "length hs = 8 \<Longrightarrow> length (foldl compress hs blks) = 8"
  by (induction blks arbitrary: hs) (simp_all add: length_compress)

lemma length_sha256: "length (sha256 m) = 8"
  by (simp add: sha256_def length_foldl_compress H256_def)

lemma length_hexdigest: "length (hexdigest ws) = 8 * length ws"
  by (induction ws) (simp_all add: hexdigest_def hex32_def)

lemma length_hash: "length (hash x) = 64"
  by (simp add: hash_def Let_def length_hexdigest length_sha256)

lemma filter_key_distinct:
  "distinct (map fst xs) \<Longrightarrow> k \<in> set xs \<Longrightarrow> filter (\<lambda>x. fst k = fst x) xs = [k]"
proof (induction xs)
  case Nil
  then show ?case by simp
next
  case (Cons x xs)
  show ?case
  proof (cases "k = x")
    case True
    have "filter (\<lambda>y. fst x = fst y) xs = []"
      using Cons.prems(1) by (auto simp add: filter_empty_conv image_iff)
    with True show ?thesis by simp
  next
    case False
    with Cons.prems have "k \<in> set xs" "fst k \<noteq> fst x"
      by (auto simp add: image_iff)
    with Cons show ?thesis by simp
  qed
qed

lemma sort_key_fst_unique:
  assumes "distinct (map fst xs)" and "distinct (map fst ys)" and "set xs = set ys"
  shows "sort_key fst xs = sort_key fst ys"
proof (rule properties_for_sort_key)
  from assms have "distinct xs" "distinct ys"
    by (simp_all add: distinct_map)
  with assms(3) have "mset xs = mset ys"
    by (simp add: set_eq_iff_mset_eq_distinct)
  then show "mset (sort_key fst ys) = mset xs" by simp
next
  fix k
  assume "k \<in> set (sort_key fst ys)"
  then have k: "k \<in> set ys" "k \<in> set xs" using assms(3) by simp_all
  have "distinct (map fst (sort_key fst ys))"
    using assms(2) by (simp add: distinct_map)
  with k(1) have "filter (\<lambda>x. fst k = fst x) (sort_key fst ys) = [k]"
    by (intro filter_key_distinct) simp_all
  moreover from assms(1) k(2) have "filter (\<lambda>x. fst k = fst x) xs = [k]"
    by (rule filter_key_distinct)
  ultimately show "filter (\<lambda>x. fst k = fst x) (sort_key fst ys) = filter (\<lambda>x. fst k = fst x) xs"
    by simp
next
  show "sorted (map fst (sort_key fst ys))" by simp
qed

lemma same_content_json_dumps:
  "same_content x y \<Longrightarrow> json_dumps True x = json_dumps True y"
proof (induction rule: same_content.induct)
  case (same x)
  show ?case by simp
next
  case (lists xs ys)
  then have "map (json_dumps True) xs = map (json_dumps True) ys"
    by (induction rule: list_all2_induct) simp_all
  then show ?case by simp
next
  case (dicts kvs kvs')
  let ?A = "map (map_prod id (json_dumps True)) kvs"
  let ?B = "map (map_prod id (json_dumps True)) kvs'"
  have dA: "distinct (map fst ?A)" and dB: "distinct (map fst ?B)"
    using dicts.hyps(1,2) by (simp_all add: comp_def)
  have sub: "set (map (map_prod id (json_dumps True)) a) \<subseteq> set (map (map_prod id (json_dumps True)) b)"
    if keys: "fst ` set a = fst ` set b"
      and eq: "\<forall>k v v'. (k, v) \<in> set a \<and> (k, v') \<in> set b \<longrightarrow> json_dumps True v = json_dumps True v'"
    for a b :: "(string \<times> pyobj) list"
  proof
    fix e
    assume "e \<in> set (map (map_prod id (json_dumps True)) a)"
    then obtain k v where kv: "(k, v) \<in> set a" "e = (k, json_dumps True v)"
      by auto
    from kv(1) keys have "k \<in> fst ` set b" by force
    then obtain v' where v': "(k, v') \<in> set b" by auto
    with kv(1) eq have "json_dumps True v = json_dumps True v'" by blast
    with kv(2) v' show "e \<in> set (map (map_prod id (json_dumps True)) b)"
      by force
  qed
  have "set ?A = set ?B"
  proof
    show "set ?A \<subseteq> set ?B"
      using dicts.hyps(3) dicts.IH by (intro sub) auto
    show "set ?B \<subseteq> set ?A"
      using dicts.hyps(3) dicts.IH by (intro sub) (auto dest: sym)
  qed
  with dA dB have "sort_key fst ?A = sort_key fst ?B"
    by (rule sort_key_fst_unique)
  then show ?case by simp
qed

lemma permuted_same_content:
  assumes "mset kvs = mset kvs'" and "distinct (map fst kvs')"
  shows "same_content (PDict kvs) (PDict kvs')"
proof (rule same_content.dicts)
  from assms(1) have m: "mset (map fst kvs) = mset (map fst kvs')" by simp
  with assms(2) show "distinct (map fst kvs)" by (metis mset_eq_imp_distinct_iff)
  show "distinct (map fst kvs')" by fact
  from assms(1) have s: "set kvs = set kvs'" by (rule mset_eq_setD)
  then show "fst ` set kvs = fst ` set kvs'" by simp
  show "\<forall>k v v'. (k, v) \<in> set kvs \<and> (k, v') \<in> set kvs' \<longrightarrow> same_content v v'"
  proof (intro allI impI)
    fix k v v'
    assume "(k, v) \<in> set kvs \<and> (k, v') \<in> set kvs'"
    with s have "(k, v) \<in> set kvs'" "(k, v') \<in> set kvs'" by simp_all
    with assms(2) have "v = v'" by (meson eq_key_imp_eq_value)
    then show "same_content v v'" by (simp add: same_content.same)
  qed
qed

lemma same_content_hash:
  assumes "same_content x y"
  shows "hash x = hash y"
proof -
  from assms have "json_dumps True x = json_dumps True y"
    by (rule same_content_json_dumps)
  then show ?thesis
    unfolding hash_def by (simp only:)
qed

text \<open>
  C8. \<^verbatim>\<open>Blockchain.hash\<close> is a function of the content of the block: two values with the
  same content have the same digest, whatever the order in which their keys were stored.
  In particular a dict with the entries of a block in any order has the digest of the
  block.
\<close>

theorem hash_ignores_key_order:
  "(same_content x y \<longrightarrow> hash x = hash y) \<and>
   (mset kvs = mset kvs' \<and> distinct (map fst kvs') \<longrightarrow> hash (PDict kvs) = hash (PDict kvs')) \<and>
   (PDict kvs' = block_dict b \<and> mset kvs = mset kvs' \<longrightarrow> hash (PDict kvs) = hash (block_dict b))"
proof (intro conjI impI)
  assume "same_content x y"
  then show "hash x = hash y"
    by (rule same_content_hash)
next
  assume "mset kvs = mset kvs' \<and> distinct (map fst kvs')"
  then have "same_content (PDict kvs) (PDict kvs')"
    by (simp add: permuted_same_content)
  then show "hash (PDict kvs) = hash (PDict kvs')"
    by (rule same_content_hash)
next
  assume a: "PDict kvs' = block_dict b \<and> mset kvs = mset kvs'"
  then have "distinct (map fst kvs')"
    by (auto simp add: block_dict_def)
  moreover from a have "mset kvs = mset kvs'" by simp
  ultimately have "same_content (PDict kvs) (PDict kvs')"
    by (intro permuted_same_content)
  then have "hash (PDict kvs) = hash (PDict kvs')"
    by (rule same_content_hash)
  with a show "hash (PDict kvs) = hash (block_dict b)"
    by simp
qed

theorem hash_ignores_key_order_witness:
  "same_content block_ab_parsed (block_dict block_ab) \<and>
   block_ab_parsed \<noteq> block_dict block_ab \<and>
   hash block_ab_parsed = hash (block_dict block_ab) \<and>
   hash (PDict [(''proof'', PInt 1), (''index'', PInt 2)]) =
     hash (PDict [(''index'', PInt 2), (''proof'', PInt 1)])"
proof -
  have tx: "same_content tx_ab_sorted tx_ab"
    unfolding tx_ab_def tx_ab_sorted_def
    by (rule same_content.dicts) (auto intro: same_content.same)
  have sc: "same_content block_ab_parsed (block_dict block_ab)"
    unfolding block_ab_parsed_def block_dict_def block_ab_def
    by (rule same_content.dicts)
      (auto intro: same_content.same same_content.lists simp add: tx)
  have ne: "block_ab_parsed \<noteq> block_dict block_ab"
    by (simp add: block_ab_parsed_def block_dict_def block_ab_def)
  have m: "mset [(''proof'', PInt 1), (''index'', PInt 2)] =
        mset [(''index'', PInt 2), (''proof'', PInt 1)] \<and>
      distinct (map fst [(''index'', PInt 2), (''proof'', PInt 1)])"
    by (simp add: add.commute)
  from hash_ignores_key_order [of block_ab_parsed "block_dict block_ab"] sc
  have "hash block_ab_parsed = hash (block_dict block_ab)" by blast
  moreover from hash_ignores_key_order
    [of _ _ "[(''proof'', PInt 1), (''index'', PInt 2)]" "[(''index'', PInt 2), (''proof'', PInt 1)]"] m
  have "hash (PDict [(''proof'', PInt 1), (''index'', PInt 2)]) =
     hash (PDict [(''index'', PInt 2), (''proof'', PInt 1)])"
    by blast
  ultimately show ?thesis using sc ne by simp
qed

section \<open>Mining\<close>

lemma mine_eq:
  assumes "chain self \<noteq> []" and "proof_of_work (proof (last (chain self))) = Some p"
  shows "mine node_identifier now self =
     Some (new_block (block_dict (last (chain self))) p now
       (self\<lparr>current_transactions := current_transactions self @
          [tx_dict (PStr ''0'', PStr node_identifier, PInt 1)]\<rparr>))"
  using assms by (simp add: mine_def last_block_def new_transaction_eq Let_def)

lemma truthy_block_dict: "truthy (block_dict b)"
  by (simp add: block_dict_def)

text \<open>
  What \<^verbatim>\<open>new_block\<close> does when it computes the digest itself: a valid chain extended
  with \<^verbatim>\<open>previous_hash=None\<close> and a valid proof is a valid chain.
\<close>

lemma new_block_None_keeps_valid_chain:
  assumes "valid_chain (chain self) = Inr True"
    and "valid_proof (proof (last (chain self))) p"
  shows "valid_chain (chain (snd (new_block PNone p now self))) = Inr True"
proof -
  from assms(1) have "chain self \<noteq> []" by (rule valid_chain_True_nonempty)
  with assms show ?thesis by (simp add: new_block_eq valid_chain_snoc)
qed

text \<open>
  C1. \<^verbatim>\<open>mine\<close> finds a valid proof for the last block's proof, but what it stores under
  \<^verbatim>\<open>previous_hash\<close> is the last block itself, a dict, and not the digest of it: the
  chain that the node mined fails its own \<^verbatim>\<open>valid_chain\<close>.
\<close>

theorem mine_stores_block_as_previous_hash:
  assumes "chain self \<noteq> []" and "proof_of_work (proof (last (chain self))) = Some p"
  shows "\<exists>b. mine node_identifier now self =
            Some (Inr b, self\<lparr>current_transactions := [], chain := chain self @ [b]\<rparr>) \<and>
          proof b = p \<and> valid_proof (proof (last (chain self))) p \<and>
          previous_hash b = block_dict (last (chain self)) \<and>
          previous_hash b \<noteq> PStr (hash (block_dict (last (chain self)))) \<and>
          valid_chain (chain self @ [b]) = Inr False"
proof -
  from assms(2) have "valid_proof (proof (last (chain self))) p"
    using pow_loop_sound [of "proof (last (chain self))" 0 p] by (simp add: proof_of_work_def)
  moreover have "block_dict (last (chain self)) \<noteq> PStr (hash (block_dict (last (chain self))))"
    by (simp add: block_dict_def)
  ultimately show ?thesis
    using assms(1) unfolding mine_eq [OF assms]
    by (simp add: new_block_eq truthy_block_dict valid_chain_snoc)
qed

theorem mine_stores_block_as_previous_hash_witness:
  "\<exists>b. mine ''node'' ''3.5'' ledger1 =
          Some (Inr b, ledger1\<lparr>chain := chain ledger1 @ [b]\<rparr>) \<and>
        proof b = 1 \<and> valid_proof 93711 1 \<and>
        previous_hash b = block_dict (last (chain ledger1)) \<and>
        valid_chain (chain ledger1 @ [b]) = Inr False"
proof -
  have ne: "chain ledger1 \<noteq> []" and lp: "proof (last (chain ledger1)) = 93711"
    and e: "current_transactions ledger1 = []"
    by (simp_all add: ledger1_eq)
  have "\<forall>q::int. 0 \<le> q \<and> q < 1 \<longrightarrow> \<not> valid_proof 93711 q"
  proof (intro allI impI)
    fix q :: int
    assume "0 \<le> q \<and> q < 1"
    then have "q = 0" by simp
    with not_valid_proof_93711_0 show "\<not> valid_proof 93711 q" by simp
  qed
  with valid_proof_93711_1 have "proof_of_work_loop 93711 0 = Some 1"
    by (intro pow_loop_complete) simp_all
  then have pw: "proof_of_work (proof (last (chain ledger1))) = Some 1"
    by (simp add: proof_of_work_def lp)
  from mine_stores_block_as_previous_hash [OF ne pw, of "''node''" "''3.5''"] lp e
  show ?thesis by auto
qed

section \<open>Resolving conflicts\<close>

text \<open>
  What a call of \<^verbatim>\<open>resolve_conflicts\<close> can do: raise and leave the ledger as it was,
  return false and leave the ledger as it was, or return true and replace the chain,
  and nothing but the chain, by the chain of a reply with status 200 that reports a
  length greater than the length of the local chain and whose chain \<^verbatim>\<open>valid_chain\<close>
  accepts.
\<close>

lemma resolve_loop_cases:
  "resolve_loop replies m nc = Inr (m', nc') \<Longrightarrow>
   (m' = m \<and> nc' = nc) \<or>
   (\<exists>r c. Inr r \<in> set replies \<and> status_code r = 200 \<and> json_length r = Inr m' \<and> m < m' \<and>
      json_chain r = Inr c \<and> valid_chain c = Inr True \<and> nc' = Some c)"
proof (induction replies arbitrary: m nc)
  case Nil
  then show ?case by simp
next
  case (Cons got rest)
  show ?case
  proof (cases "\<exists>r c n. got = Inr r \<and> status_code r = 200 \<and> json_length r = Inr n \<and>
      m < n \<and> json_chain r = Inr c \<and> valid_chain c = Inr True")
    case adopt: True
    then obtain r c n where r: "got = Inr r" "status_code r = 200" "json_length r = Inr n"
      "m < n" "json_chain r = Inr c" "valid_chain c = Inr True"
      by blast
    with Cons.prems have "resolve_loop rest n (Some c) = Inr (m', nc')"
      by simp
    from Cons.IH [OF this] show ?thesis
    proof
      assume "m' = n \<and> nc' = Some c"
      with r show ?thesis by auto
    next
      assume "\<exists>r' c'. Inr r' \<in> set rest \<and> status_code r' = 200 \<and> json_length r' = Inr m' \<and>
          n < m' \<and> json_chain r' = Inr c' \<and> valid_chain c' = Inr True \<and> nc' = Some c'"
      then obtain r' c' where "Inr r' \<in> set rest" "status_code r' = 200"
        "json_length r' = Inr m'" "n < m'" "json_chain r' = Inr c'"
        "valid_chain c' = Inr True" "nc' = Some c'"
        by blast
      with r(4) show ?thesis by auto
    qed
  next
    case skip: False
    with Cons.prems have "resolve_loop rest m nc = Inr (m', nc')"
      by (auto split: sum.splits if_splits)
    from Cons.IH [OF this] show ?thesis by auto
  qed
qed

lemma resolve_conflicts_cases:
  "(\<exists>e. resolve_conflicts replies self = (Inl e, self)) \<or>
   resolve_conflicts replies self = (Inr False, self) \<or>
   (\<exists>r n c. Inr r \<in> set replies \<and> status_code r = 200 \<and> json_length r = Inr n \<and>
      int (length (chain self)) < n \<and> json_chain r = Inr c \<and> valid_chain c = Inr True \<and>
      resolve_conflicts replies self = (Inr True, self\<lparr>chain := c\<rparr>))"
proof (cases "resolve_loop replies (int (length (chain self))) None")
  case (Inl e)
  then show ?thesis by (simp add: resolve_conflicts_def)
next
  case (Inr p)
  obtain m' nc' where p: "p = (m', nc')" by (cases p)
  from resolve_loop_cases [OF Inr [unfolded p]] show ?thesis
  proof
    assume "m' = int (length (chain self)) \<and> nc' = None"
    with Inr p show ?thesis by (simp add: resolve_conflicts_def)
  next
    assume "\<exists>r c. Inr r \<in> set replies \<and> status_code r = 200 \<and> json_length r = Inr m' \<and>
        int (length (chain self)) < m' \<and> json_chain r = Inr c \<and> valid_chain c = Inr True \<and>
        nc' = Some c"
    then obtain r c where r: "Inr r \<in> set replies" "status_code r = 200"
      "json_length r = Inr m'" "int (length (chain self)) < m'" "json_chain r = Inr c"
      "valid_chain c = Inr True" "nc' = Some c"
      by blast
    from r(6) have "c \<noteq> []" by (rule valid_chain_True_nonempty)
    with Inr p r(7) have "resolve_conflicts replies self = (Inr True, self\<lparr>chain := c\<rparr>)"
      by (simp add: resolve_conflicts_def)
    with r show ?thesis by blast
  qed
qed

lemma valid_chain_g1_g2: "valid_chain [g1, g2] = Inr True"
  using valid_chain_snoc [of "[g1]" g2] valid_proof_93711_1
  by (simp add: valid_chain_single g1_def g2_def)

lemma valid_chain_g1_g2_renumbered: "valid_chain [g1, g2_renumbered] = Inr True"
  using valid_chain_snoc [of "[g1]" g2_renumbered] valid_proof_93711_1
  by (simp add: valid_chain_single g1_def g2_renumbered_def)

text \<open>
  C2. A ledger of two blocks asks one node, which replies with status 200, the length 3
  and a chain of the one block \<open>g1\<close>. \<^verbatim>\<open>resolve_conflicts\<close> compares the reported
  length with the length of the local chain, never the length of the chain that came
  with it: it returns true, and the local chain is one block long.
\<close>

theorem resolve_conflicts_adopts_shorter_chain:
  "resolve_conflicts [Inr peer_overstating] ledger1 = (Inr True, ledger1\<lparr>chain := [g1]\<rparr>) \<and>
   length (chain ledger1) = 2 \<and>
   length (chain (ledger1\<lparr>chain := [g1]\<rparr>)) = 1 \<and>
   current_transactions (ledger1\<lparr>chain := [g1]\<rparr>) = current_transactions ledger1"
  by (simp add: resolve_conflicts_def peer_overstating_def ledger1_eq valid_chain_single)

text \<open>
  C3. A new ledger asks two nodes. The first replies with a greater length and an empty
  chain, the second with the valid chain \<open>[g1, g2]\<close> of length 2. \<^verbatim>\<open>valid_chain\<close>
  raises \<^verbatim>\<open>IndexError\<close> on the empty chain, which ends \<^verbatim>\<open>resolve_conflicts\<close> before the
  second reply is looked at: no flag is returned and the chain is not replaced, although
  a longer candidate passes \<^verbatim>\<open>valid_chain\<close>. Asked in the other order, the loop first
  keeps \<open>[g1, g2]\<close> as its candidate and then raises all the same, before the chain
  is replaced. With the second node alone the chain is replaced.
\<close>

theorem resolve_conflicts_stops_at_empty_chain:
  "resolve_conflicts [Inr peer_empty, Inr peer_good] (Blockchain ''1.5'') =
     (Inl IndexError, Blockchain ''1.5'') \<and>
   int (length (chain (Blockchain ''1.5''))) < 2 \<and>
   valid_chain [g1, g2] = Inr True \<and>
   resolve_conflicts [Inr peer_good] (Blockchain ''1.5'') =
     (Inr True, (Blockchain ''1.5'')\<lparr>chain := [g1, g2]\<rparr>) \<and>
   resolve_conflicts [Inr peer_good, Inr peer_empty] (Blockchain ''1.5'') =
     (Inl IndexError, Blockchain ''1.5'')"
proof -
  have "valid_chain [] = Inl IndexError" by (simp add: valid_chain_def)
  then show ?thesis
    by (simp add: resolve_conflicts_def peer_empty_def peer_good_def Blockchain_eq
        valid_chain_g1_g2)
qed

section \<open>Submitting a transaction\<close>

text \<open>
  C7. A new ledger adopts the valid chain \<open>[g1, g2_renumbered]\<close>, reported with its
  length 2, in which the second block says that its index is 7; \<^verbatim>\<open>valid_chain\<close> does
  not look at the index. \<^verbatim>\<open>new_transaction\<close> then appends the transaction, raises
  nothing and returns 8, the index of the last block plus 1. The length of the chain
  plus 1 is 3, and 3 is the index of the block that \<^verbatim>\<open>new_block\<close> then builds with
  this transaction.
\<close>

theorem new_transaction_after_adoption:
  "resolve_conflicts [Inr peer_renumbered] (Blockchain ''1.5'') = (Inr True, foreign_ledger) \<and>
   chain foreign_ledger = [g1, g2_renumbered] \<and>
   new_transaction (PStr ''a'') (PStr ''b'') (PInt 1) foreign_ledger =
     (Inr 8, foreign_pending) \<and>
   current_transactions foreign_pending =
     current_transactions foreign_ledger @ [tx_dict (PStr ''a'', PStr ''b'', PInt 1)] \<and>
   int (length (chain foreign_ledger)) + 1 = 3 \<and>
   (\<exists>b. fst (new_block PNone 5 ''3.5'' foreign_pending) = Inr b \<and> index b = 3 \<and>
      transactions b = [tx_dict (PStr ''a'', PStr ''b'', PInt 1)])"
proof -
  have r: "resolve_conflicts [Inr peer_renumbered] (Blockchain ''1.5'') =
      (Inr True, (Blockchain ''1.5'')\<lparr>chain := [g1, g2_renumbered]\<rparr>)"
    by (simp add: resolve_conflicts_def peer_renumbered_def Blockchain_eq
        valid_chain_g1_g2_renumbered)
  then have fl: "foreign_ledger = (Blockchain ''1.5'')\<lparr>chain := [g1, g2_renumbered]\<rparr>"
    by (simp add: foreign_ledger_def)
  have nt: "new_transaction (PStr ''a'') (PStr ''b'') (PInt 1) foreign_ledger =
      (Inr 8, foreign_ledger\<lparr>current_transactions :=
         current_transactions foreign_ledger @ [tx_dict (PStr ''a'', PStr ''b'', PInt 1)]\<rparr>)"
    unfolding fl by (simp add: new_transaction_eq g2_renumbered_def)
  then have fp: "foreign_pending = foreign_ledger\<lparr>current_transactions :=
         current_transactions foreign_ledger @ [tx_dict (PStr ''a'', PStr ''b'', PInt 1)]\<rparr>"
    by (simp add: foreign_pending_def)
  have "\<exists>b. fst (new_block PNone 5 ''3.5'' foreign_pending) = Inr b \<and> index b = 3 \<and>
      transactions b = [tx_dict (PStr ''a'', PStr ''b'', PInt 1)]"
    unfolding fp fl by (simp add: new_block_eq Blockchain_eq)
  moreover have "int (length (chain foreign_ledger)) + 1 = 3"
    unfolding fl by simp
  ultimately show ?thesis
    using r nt unfolding fp by (simp add: fl)
qed

section \<open>The chain is never empty\<close>

text \<open>
  Every ledger the program can reach has a block: the genesis block is there from the
  start, blocks are only appended, and \<^verbatim>\<open>resolve_conflicts\<close> replaces the chain by a
  non-empty one only. So the theorems above that ask for a non-empty chain hold of every
  reachable ledger.
\<close>

lemma ledger_chain_nonempty: "ledger self \<Longrightarrow> chain self \<noteq> []"
proof (induction rule: ledger.induct)
  case (new now)
  show ?case by (simp add: Blockchain_eq)
next
  case (submitted self sender recipient amount)
  then show ?case by (simp add: new_transaction_eq)
next
  case (sealed self ph p now)
  then show ?case by (simp add: new_block_eq)
next
  case (mined self node_identifier now r self')
  show ?case
  proof (cases "proof_of_work (proof (last (chain self)))")
    case None
    with mined show ?thesis by (simp add: mine_def last_block_def)
  next
    case (Some p)
    from mined.hyps(2) mined.IH show ?thesis
      unfolding mine_eq [OF mined.IH Some]
      by (auto simp add: new_block_eq truthy_block_dict)
  qed
next
  case (resolved self replies)
  from resolve_conflicts_cases [of replies self] resolved.IH show ?case
    by (auto dest: valid_chain_True_nonempty)
qed

end
